theory Spec2Isabelle
  imports Complex_Main
begin

section \<open>Python exceptions\<close>

text \<open>
  The exceptions the two classes can raise, as values. Python's numbers (int and float)
  are read as real numbers: arithmetic is exact, rounding of floats is not modelled.
\<close>

datatype error =
  IndexError | ValueError | TypeError | KeyError | FileNotFoundError | PYSWMMException
  | AttributeError string

section \<open>Central basin approach: the object and its mass balance\<close>

text \<open>
  An instance of \<open>Central_Basin_Approach\<close>. The attribute \<open>total_system_volume\<close> does
  not exist until \<open>create_CAS_model\<close> has assigned it: \<open>None\<close> is the missing attribute.
\<close>

record central_basin_approach =
  model_path :: string
  total_system_volume :: "real option"

text \<open>The three local variables of the loop of \<open>run_CAS_model\<close>.\<close>

record cas_state =
  available_storage :: real
  total_cso_volume :: real
  storage_tracked :: "real list"

text \<open>
  One pass through the body of \<open>for inflow_t in inflow\<close>. In the overflow branch the
  source first assigns \<open>available_storage = 0\<close> and then evaluates the increment of
  \<open>total_cso_volume\<close>, which reads \<open>available_storage\<close> again: the two assignments
  are kept in that order.
\<close>

definition cas_step :: "real \<Rightarrow> real \<Rightarrow> real \<Rightarrow> cas_state \<Rightarrow> real \<Rightarrow> cas_state" where
  "cas_step capacity wwtp_capacity time_step s inflow_t =
     (let s' =
        (if inflow_t * time_step > wwtp_capacity * time_step + available_storage s
         then
           (let s1 = s\<lparr>available_storage := 0\<rparr>
            in s1\<lparr>total_cso_volume := total_cso_volume s1 +
                     (inflow_t * time_step - wwtp_capacity * time_step - available_storage s1)\<rparr>)
         else
           s\<lparr>available_storage :=
                min (available_storage s + wwtp_capacity * time_step - inflow_t * time_step)
                    capacity\<rparr>)
      in s'\<lparr>storage_tracked := storage_tracked s' @ [available_storage s']\<rparr>)"

fun cas_loop :: "real \<Rightarrow> real \<Rightarrow> real \<Rightarrow> cas_state \<Rightarrow> real list \<Rightarrow> cas_state" where
  "cas_loop capacity wwtp_capacity time_step s [] = s"
| "cas_loop capacity wwtp_capacity time_step s (inflow_t # inflow) =
     cas_loop capacity wwtp_capacity time_step
       (cas_step capacity wwtp_capacity time_step s inflow_t) inflow"

definition cas_init :: "real \<Rightarrow> cas_state" where
  "cas_init capacity =
     \<lparr>available_storage = capacity, total_cso_volume = 0, storage_tracked = []\<rparr>"

text \<open>
  \<open>run_CAS_model\<close>: reading \<open>self.total_system_volume\<close> raises AttributeError when
  the attribute is missing; otherwise the loop runs over the inflow and the pair
  \<open>(total_cso_volume, storage_tracked)\<close> is returned. The object is not changed.
\<close>

definition run_CAS_model ::
  "central_basin_approach \<Rightarrow> real \<Rightarrow> real list \<Rightarrow> real \<Rightarrow> error + (real \<times> real list)" where
  "run_CAS_model self wwtp_capacity inflow time_step =
     (case total_system_volume self of
        None \<Rightarrow> Inl (AttributeError ''total_system_volume'')
      | Some capacity \<Rightarrow>
          (let s = cas_loop capacity wwtp_capacity time_step (cas_init capacity) inflow
           in Inr (total_cso_volume s, storage_tracked s)))"

text \<open>
  The running overflow total after the first \<open>k\<close> samples of a run: the value of
  \<open>total_cso_volume\<close> when the loop has processed \<open>take k inflow\<close>.
\<close>

definition overflow_after :: "real \<Rightarrow> real \<Rightarrow> real \<Rightarrow> real list \<Rightarrow> nat \<Rightarrow> real" where
  "overflow_after capacity wwtp_capacity time_step inflow k =
     total_cso_volume
       (cas_loop capacity wwtp_capacity time_step (cas_init capacity) (take k inflow))"

text \<open>
  The inputs the specification calls malformed for \<open>run_CAS_model\<close>, in the
  specification's words: an empty inflow, a non-positive time step or a non-positive
  treatment capacity.
\<close>

definition spec_malformed :: "real \<Rightarrow> real list \<Rightarrow> real \<Rightarrow> bool" where
  "spec_malformed wwtp_capacity inflow time_step =
     (inflow = [] \<or> time_step \<le> 0 \<or> wwtp_capacity \<le> 0)"

section \<open>Python strings and lists\<close>

text \<open>
  \<open>sub in s\<close> on strings: \<open>sub\<close> occurs in \<open>s\<close> as a contiguous run of characters.
\<close>

fun starts_with :: "string \<Rightarrow> string \<Rightarrow> bool" where
  "starts_with s [] = True"
| "starts_with [] (p # ps) = False"
| "starts_with (c # cs) (p # ps) = (c = p \<and> starts_with cs ps)"

fun contains :: "string \<Rightarrow> string \<Rightarrow> bool" where
  "contains sub [] = (sub = [])"
| "contains sub (c # cs) = (starts_with (c # cs) sub \<or> contains sub cs)"

text \<open>
  \<open>s.split()\<close> without arguments: the maximal runs of characters that are not white
  space. The lines are read as ASCII text, whose white space is the tab, the line feed,
  the vertical tab, the form feed, the carriage return, the four separators 0x1C to 0x1F
  and the space.
\<close>

definition is_space :: "char \<Rightarrow> bool" where
  "is_space c = (c \<in> {CHR 0x09, CHR 0x0A, CHR 0x0B, CHR 0x0C, CHR 0x0D,
                       CHR 0x1C, CHR 0x1D, CHR 0x1E, CHR 0x1F, CHR 0x20})"

fun split_from :: "string \<Rightarrow> string \<Rightarrow> string list" where
  "split_from tok [] = (if tok = [] then [] else [tok])"
| "split_from tok (c # cs) =
     (if is_space c then (if tok = [] then split_from [] cs else tok # split_from [] cs)
      else split_from (tok @ [c]) cs)"

definition split_py :: "string \<Rightarrow> string list" where
  "split_py s = split_from [] s"

text \<open>
  \<open>xs[0]\<close>, \<open>xs[i]\<close> for an index that is not negative, and \<open>xs[-k]\<close> for
  \<open>k = 1, 2\<close>: IndexError outside the list.
\<close>

fun first_item :: "'a list \<Rightarrow> error + 'a" where
  "first_item [] = Inl IndexError"
| "first_item (x # xs) = Inr x"

definition item :: "'a list \<Rightarrow> nat \<Rightarrow> error + 'a" where
  "item xs i = (if i < length xs then Inr (xs ! i) else Inl IndexError)"

definition item_from_end :: "'a list \<Rightarrow> nat \<Rightarrow> error + 'a" where
  "item_from_end xs k =
     (if 0 < k \<and> k \<le> length xs then Inr (xs ! (length xs - k)) else Inl IndexError)"

text \<open>
  \<open>float(s)\<close> is Python's own parser. It is a parameter \<open>float_py\<close> of the model, a
  function that gives \<open>None\<close> where \<open>float\<close> raises ValueError; no claim depends on
  which texts it accepts. \<open>float_of_digits\<close> is the instance used in the examples: it
  reads a run of decimal digits.
\<close>

definition to_float :: "(string \<Rightarrow> real option) \<Rightarrow> string \<Rightarrow> error + real" where
  "to_float float_py s = (case float_py s of None \<Rightarrow> Inl ValueError | Some x \<Rightarrow> Inr x)"

definition is_digit :: "char \<Rightarrow> bool" where
  "is_digit c = (48 \<le> (of_char c :: nat) \<and> (of_char c :: nat) \<le> 57)"

definition float_of_digits :: "string \<Rightarrow> real option" where
  "float_of_digits s =
     (if s \<noteq> [] \<and> list_all is_digit s
      then Some (real (foldl (\<lambda>n c. 10 * n + (of_char c - 48)) 0 s))
      else None)"

section \<open>Central basin approach: building the capacity\<close>

text \<open>
  The line of the storage node \<open>name\<close>. The source writes the expression
  \<open>read_model[[k for k in range([c for c, cl in enumerate(read_model)
  if '[STORAGE]' in cl][0], len(read_model)) if name in read_model[k]][0]]\<close> three
  times; it is the first line, from the first line holding \<open>[STORAGE]\<close> on, in which the
  name occurs. Each \<open>[0]\<close> raises IndexError on an empty list.
\<close>

definition storage_line :: "string list \<Rightarrow> string \<Rightarrow> error + string" where
  "storage_line read_model name =
     (case first_item (filter (\<lambda>c. contains ''[STORAGE]'' (read_model ! c))
                    [0 ..< length read_model]) of
        Inl e \<Rightarrow> Inl e
      | Inr start \<Rightarrow>
          (case first_item (filter (\<lambda>k. contains name (read_model ! k))
                         [start ..< length read_model]) of
             Inl e \<Rightarrow> Inl e
           | Inr k \<Rightarrow> Inr (read_model ! k)))"

text \<open>
  \<open>[i for i in all_curve if i.split()[0] == relevant_curve]\<close>: the lines whose first
  field is the curve name; a line without any field raises IndexError.
\<close>

fun first_field_is :: "string \<Rightarrow> string list \<Rightarrow> error + string list" where
  "first_field_is relevant_curve [] = Inr []"
| "first_field_is relevant_curve (i # rest) =
     (case first_item (split_py i) of
        Inl e \<Rightarrow> Inl e
      | Inr f \<Rightarrow>
          (case first_field_is relevant_curve rest of
             Inl e \<Rightarrow> Inl e
           | Inr kept \<Rightarrow> Inr (if f = relevant_curve then i # kept else kept)))"

text \<open>
  \<open>float(all_curve[i].split()[-k])\<close>: with \<open>k = 1\<close> the area of row \<open>i\<close> of the curve,
  with \<open>k = 2\<close> its depth.
\<close>

definition curve_field ::
  "(string \<Rightarrow> real option) \<Rightarrow> string list \<Rightarrow> nat \<Rightarrow> nat \<Rightarrow> error + real" where
  "curve_field float_py all_curve i k =
     (case item all_curve i of
        Inl e \<Rightarrow> Inl e
      | Inr row \<Rightarrow>
          (case item_from_end (split_py row) k of
             Inl e \<Rightarrow> Inl e
           | Inr field \<Rightarrow> to_float float_py field))"

text \<open>
  The loop \<open>while sp < stor[1]\<close> over the rows of the curve, with its three variables
  \<open>sp\<close>, \<open>count\<close> and \<open>volume\<close>. The four fields are read in the order of the source;
  the statement that advances \<open>sp\<close> reads the two depths again and cannot fail where
  the first reading did not.
\<close>

function curve_loop ::
  "(string \<Rightarrow> real option) \<Rightarrow> string list \<Rightarrow> real \<Rightarrow> real \<Rightarrow> nat \<Rightarrow> real \<Rightarrow> error + real"
where
  "curve_loop float_py all_curve threshold sp count volume =
     (if sp < threshold then
        (case curve_field float_py all_curve count 1 of
           Inl e \<Rightarrow> Inl e
         | Inr a0 \<Rightarrow>
        (case curve_field float_py all_curve (count + 1) 1 of
           Inl e \<Rightarrow> Inl e
         | Inr a1 \<Rightarrow>
        (case curve_field float_py all_curve (count + 1) 2 of
           Inl e \<Rightarrow> Inl e
         | Inr d1 \<Rightarrow>
        (case curve_field float_py all_curve count 2 of
           Inl e \<Rightarrow> Inl e
         | Inr d0 \<Rightarrow>
             curve_loop float_py all_curve threshold
               (sp + (d1 - d0)) (count + 1) (volume + ((a0 + a1) / 2) * (d1 - d0))))))
      else Inr volume)"
  by pat_completeness auto
termination
  by (relation "measure (\<lambda>(float_py, all_curve, threshold, sp, count, volume).
                           length all_curve - count)")
     (auto simp: curve_field_def item_def split: if_splits)

definition curve_volume ::
  "(string \<Rightarrow> real option) \<Rightarrow> string list \<Rightarrow> real \<Rightarrow> error + real" where
  "curve_volume float_py all_curve threshold = curve_loop float_py all_curve threshold 0 0 0"

text \<open>
  The volume of one entry \<open>stor = (name, threshold)\<close> of \<open>storage\<close>: the body of
  \<open>for stor in storage\<close> up to the assignment of \<open>volume\<close>.
\<close>

definition storage_volume ::
  "(string \<Rightarrow> real option) \<Rightarrow> string list \<Rightarrow> string \<times> real \<Rightarrow> error + real" where
  "storage_volume float_py read_model stor =
     (case storage_line read_model (fst stor) of
        Inl e \<Rightarrow> Inl e
      | Inr line \<Rightarrow>
          (if contains ''TABULAR'' line then
             (case item (split_py line) 5 of
                Inl e \<Rightarrow> Inl e
              | Inr relevant_curve \<Rightarrow>
                  (case first_field_is relevant_curve
                          (filter (contains relevant_curve) read_model) of
                     Inl e \<Rightarrow> Inl e
                   | Inr all_curve \<Rightarrow> curve_volume float_py all_curve (snd stor)))
           else
             (case item (split_py line) 5 of
                Inl e \<Rightarrow> Inl e
              | Inr field \<Rightarrow>
                  (case to_float float_py field of
                     Inl e \<Rightarrow> Inl e
                   | Inr area \<Rightarrow> Inr (snd stor * area)))))"

text \<open>
  The loop \<open>for stor in storage\<close>, with the value of \<open>self.total_system_volume\<close> as its
  state. An exception leaves the loop with the attribute as it is at that moment: the
  result is the exception, if any, and the value of the attribute.
\<close>

fun storage_loop ::
  "(string \<Rightarrow> real option) \<Rightarrow> string list \<Rightarrow> real \<Rightarrow> (string \<times> real) list
     \<Rightarrow> error option \<times> real" where
  "storage_loop float_py read_model system_volume [] = (None, system_volume)"
| "storage_loop float_py read_model system_volume (stor # storage) =
     (case storage_volume float_py read_model stor of
        Inl e \<Rightarrow> (Some e, system_volume)
      | Inr volume \<Rightarrow> storage_loop float_py read_model (system_volume + volume) storage)"

text \<open>
  \<open>create_CAS_model\<close>. The argument \<open>storage\<close> is a list of pairs, so the two tests
  with \<open>isinstance\<close> pass, but \<open>storage[0]\<close> raises IndexError on the empty list. The
  files are a map from paths to lines; a missing file raises in \<open>open\<close>. The result is
  the returned volume or the exception, with the object as the call leaves it.
\<close>

definition create_CAS_model ::
  "(string \<Rightarrow> real option) \<Rightarrow> (string \<rightharpoonup> string list) \<Rightarrow> central_basin_approach
     \<Rightarrow> (string \<times> real) list \<Rightarrow> (error + real) \<times> central_basin_approach" where
  "create_CAS_model float_py files self storage =
     (case first_item storage of
        Inl e \<Rightarrow> (Inl e, self)
      | Inr _ \<Rightarrow>
          (case files (model_path self) of
             None \<Rightarrow> (Inl FileNotFoundError, self)
           | Some read_model \<Rightarrow>
               (case storage_loop float_py read_model 0 storage of
                  (Some e, system_volume) \<Rightarrow> (Inl e, self\<lparr>total_system_volume := Some system_volume\<rparr>)
                | (None, system_volume) \<Rightarrow> (Inr system_volume, self\<lparr>total_system_volume := Some system_volume\<rparr>))))"

text \<open>
  A curve as numbers, for stating what the loop computes: the rows of \<open>all_curve\<close> read
  as the pairs (depth, area) of \<open>curve\<close>, and the sum of the first \<open>n\<close> trapezoids of
  a curve, each at its full width.
\<close>

definition reads_as ::
  "(string \<Rightarrow> real option) \<Rightarrow> string list \<Rightarrow> (real \<times> real) list \<Rightarrow> bool" where
  "reads_as float_py all_curve curve =
     (map (\<lambda>i. (curve_field float_py all_curve i 2, curve_field float_py all_curve i 1))
          [0 ..< length all_curve]
      = map (\<lambda>(d, a). (Inr d, Inr a)) curve)"

definition trapezoid :: "(real \<times> real) list \<Rightarrow> nat \<Rightarrow> real" where
  "trapezoid curve i =
     ((snd (curve ! i) + snd (curve ! Suc i)) / 2) * (fst (curve ! Suc i) - fst (curve ! i))"

definition trapezoids :: "(real \<times> real) list \<Rightarrow> nat \<Rightarrow> real" where
  "trapezoids curve n = sum_list (map (trapezoid curve) [0 ..< n])"

text \<open>
  A small model file for the examples: a tabular storage node \<open>S1\<close> with the curve
  \<open>C1\<close>, and a storage node \<open>S2\<close> with the constant area 1000.
\<close>

definition example_inp :: "string list" where
  "example_inp =
     [''[STORAGE]'',
      ''S1 0 5 0 TABULAR C1 0 0'',
      ''S2 0 5 0 FUNCTIONAL 1000 0 0'',
      ''[CURVES]'',
      ''C1 Storage 0 4'',
      ''C1 10 4'',
      ''C1 20 6'']"

section \<open>Heuristic control: rules, the simulation and one control step\<close>

text \<open>
  A rule is a Python list whose entries are strings or numbers:
  \<open>[node, level, set point, 'higher' or 'lower']\<close>. The rule dictionary is the list of
  its items, in the order of the dictionary; \<open>map_of\<close> is the lookup by key.
\<close>

datatype pyval = PStr string | PNum real

type_synonym rule = "pyval list"

type_synonym rule_dictionary = "(string \<times> rule list) list"

text \<open>
  What the model uses of a running pyswmm simulation: the identifiers of the pumps and of
  the outfalls, the depth of every node (\<open>None\<close> for an identifier that is no node of
  the model), the target setting of every link, the total inflow of every node and the
  current time. The physics is a parameter \<open>advance\<close> of the loop: it takes the
  simulation to the next control step, or gives \<open>None\<close> when the simulation has ended.
\<close>

record simulation =
  pump_ids :: "string list"
  outfall_ids :: "string list"
  node_depth :: "string \<rightharpoonup> real"
  target_setting :: "string \<Rightarrow> real"
  total_inflow :: "string \<Rightarrow> real"
  current_time :: real

text \<open>\<open>d.lower()\<close> on ASCII text, and \<open>[d.lower() for d in rule if isinstance(d, str)]\<close>.\<close>

definition lower_char :: "char \<Rightarrow> char" where
  "lower_char c =
     (if 65 \<le> (of_char c :: nat) \<and> (of_char c :: nat) \<le> 90
      then char_of ((of_char c :: nat) + 32) else c)"

definition lower_py :: "string \<Rightarrow> string" where
  "lower_py s = map lower_char s"

fun lowered_strings :: "rule \<Rightarrow> string list" where
  "lowered_strings [] = []"
| "lowered_strings (PStr d # rule) = lower_py d # lowered_strings rule"
| "lowered_strings (PNum x # rule) = lowered_strings rule"

text \<open>
  \<open>nodes_model[rule[0]].depth\<close>: pyswmm raises for a key that is no node of the model.
  \<open>depth > rule[1]\<close> and \<open>depth <= rule[1]\<close>: comparing a number with a string raises
  TypeError. \<open>links_model[pump].target_setting = rule[2]\<close>: the pump is a link of the
  model; the setter takes a number and raises TypeError on a string.
\<close>

definition depth_of :: "simulation \<Rightarrow> pyval \<Rightarrow> error + real" where
  "depth_of sim key =
     (case key of
        PNum x \<Rightarrow> Inl PYSWMMException
      | PStr node \<Rightarrow>
          (case node_depth sim node of None \<Rightarrow> Inl PYSWMMException | Some d \<Rightarrow> Inr d))"

definition gt_py :: "real \<Rightarrow> pyval \<Rightarrow> error + bool" where
  "gt_py depth level = (case level of PNum x \<Rightarrow> Inr (depth > x) | PStr s \<Rightarrow> Inl TypeError)"

definition le_py :: "real \<Rightarrow> pyval \<Rightarrow> error + bool" where
  "le_py depth level = (case level of PNum x \<Rightarrow> Inr (depth \<le> x) | PStr s \<Rightarrow> Inl TypeError)"

definition set_target_setting :: "simulation \<Rightarrow> string \<Rightarrow> pyval \<Rightarrow> error + simulation" where
  "set_target_setting sim pump setting =
     (case setting of
        PStr s \<Rightarrow> Inl TypeError
      | PNum x \<Rightarrow> Inr (sim\<lparr>target_setting := (target_setting sim)(pump := x)\<rparr>))"

text \<open>
  The body of \<open>for rule in rule_dictionary[pump]\<close>: the \<open>if\<close> on \<open>'higher'\<close>, the
  \<open>elif\<close> on \<open>'lower'\<close>, and nothing otherwise.
\<close>

definition apply_rule :: "simulation \<Rightarrow> string \<Rightarrow> rule \<Rightarrow> error + simulation" where
  "apply_rule sim pump rule =
     (if ''higher'' \<in> set (lowered_strings rule) then
        (case item rule 0 of Inl e \<Rightarrow> Inl e | Inr key \<Rightarrow>
        (case depth_of sim key of Inl e \<Rightarrow> Inl e | Inr depth \<Rightarrow>
        (case item rule 1 of Inl e \<Rightarrow> Inl e | Inr level \<Rightarrow>
        (case gt_py depth level of Inl e \<Rightarrow> Inl e | Inr is_above \<Rightarrow>
           (if is_above then
              (case item rule 2 of Inl e \<Rightarrow> Inl e
               | Inr setting \<Rightarrow> set_target_setting sim pump setting)
            else Inr sim)))))
      else if ''lower'' \<in> set (lowered_strings rule) then
        (case item rule 0 of Inl e \<Rightarrow> Inl e | Inr key \<Rightarrow>
        (case depth_of sim key of Inl e \<Rightarrow> Inl e | Inr depth \<Rightarrow>
        (case item rule 1 of Inl e \<Rightarrow> Inl e | Inr level \<Rightarrow>
        (case le_py depth level of Inl e \<Rightarrow> Inl e | Inr is_below \<Rightarrow>
           (if is_below then
              (case item rule 2 of Inl e \<Rightarrow> Inl e
               | Inr setting \<Rightarrow> set_target_setting sim pump setting)
            else Inr sim)))))
      else Inr sim)"

text \<open>
  The loop over the rules of one pump. An exception leaves the loop with the settings
  made so far: the result is the exception, if any, and the simulation.
\<close>

fun rules_loop :: "simulation \<Rightarrow> string \<Rightarrow> rule list \<Rightarrow> error option \<times> simulation" where
  "rules_loop sim pump [] = (None, sim)"
| "rules_loop sim pump (rule # rules) =
     (case apply_rule sim pump rule of
        Inl e \<Rightarrow> (Some e, sim)
      | Inr sim' \<Rightarrow> rules_loop sim' pump rules)"

text \<open>
  The body of \<open>try\<close> for one pump: \<open>rule_dictionary[pump]\<close> raises KeyError for a pump
  without an entry.
\<close>

definition try_pump :: "rule_dictionary \<Rightarrow> simulation \<Rightarrow> string \<Rightarrow> error option \<times> simulation" where
  "try_pump rule_dictionary sim pump =
     (case map_of rule_dictionary pump of
        None \<Rightarrow> (Some KeyError, sim)
      | Some rules \<Rightarrow> rules_loop sim pump rules)"

text \<open>
  The loop \<open>for pump in self.list_of_pumps\<close> of one control step. The bare \<open>except\<close>
  catches every exception and makes \<open>run_model\<close> return (not raise) an AttributeError
  whose text names the pump: the result is that returned object, if any, and the
  simulation.
\<close>

definition not_specified :: "string \<Rightarrow> error" where
  "not_specified pump =
     AttributeError (''Pump '' @ pump @ '' Not Specified in Rules,'' @ '' please add'')"

fun pumps_loop ::
  "rule_dictionary \<Rightarrow> simulation \<Rightarrow> string list \<Rightarrow> error option \<times> simulation" where
  "pumps_loop rule_dictionary sim [] = (None, sim)"
| "pumps_loop rule_dictionary sim (pump # pumps) =
     (case try_pump rule_dictionary sim pump of
        (Some e, sim') \<Rightarrow> (Some (not_specified pump), sim')
      | (None, sim') \<Rightarrow> pumps_loop rule_dictionary sim' pumps)"

text \<open>
  What \<open>run_model\<close> returns: the table of the recorded outfall inflows (the names of the
  columns and one list of values for each), or an exception object.
\<close>

datatype returned = DataFrame "string list" "real list list" | ErrorObject error

record recorded =
  outfall_results :: "real list list"
  times :: "real list"

definition record_step :: "string list \<Rightarrow> simulation \<Rightarrow> recorded \<Rightarrow> recorded" where
  "record_step list_of_outfalls sim r =
     \<lparr>outfall_results =
        map (\<lambda>(column, outfall). column @ [total_inflow sim outfall])
            (zip (outfall_results r) list_of_outfalls),
      times = times r @ [current_time sim]\<rparr>"

text \<open>
  The loop \<open>for step in sim\<close>. A simulation that never ends and never meets an exception
  gives no result: the loop has the value \<open>None\<close> then.
\<close>

partial_function (option) steps_loop ::
  "(simulation \<Rightarrow> simulation option) \<Rightarrow> rule_dictionary \<Rightarrow> string list \<Rightarrow> string list
     \<Rightarrow> simulation \<Rightarrow> recorded \<Rightarrow> returned option" where
  "steps_loop advance rule_dictionary list_of_pumps list_of_outfalls sim r =
     (case advance sim of
        None \<Rightarrow> Some (DataFrame list_of_outfalls (outfall_results r))
      | Some sim1 \<Rightarrow>
          (case pumps_loop rule_dictionary sim1 list_of_pumps of
             (Some e, sim2) \<Rightarrow> Some (ErrorObject e)
           | (None, sim2) \<Rightarrow>
               steps_loop advance rule_dictionary list_of_pumps list_of_outfalls sim2
                 (record_step list_of_outfalls sim2 r)))"

text \<open>
  \<open>run_model\<close> on the simulation that \<open>pyswmm.Simulation(self.model_path)\<close> opens. The
  rule dictionary is a dictionary of lists, so the two assertions pass, except that
  \<open>list(rule_dictionary.values())[0]\<close> raises IndexError on an empty dictionary.
  \<open>Inl\<close> is a raised exception, \<open>Inr\<close> a returned value.
\<close>

definition run_model ::
  "(simulation \<Rightarrow> simulation option) \<Rightarrow> rule_dictionary \<Rightarrow> simulation
     \<Rightarrow> (error + returned) option" where
  "run_model advance rule_dictionary sim =
     (case first_item (map snd rule_dictionary) of
        Inl e \<Rightarrow> Some (Inl e)
      | Inr _ \<Rightarrow>
          map_option Inr
            (steps_loop advance rule_dictionary (pump_ids sim) (outfall_ids sim) sim
               \<lparr>outfall_results = map (\<lambda>i. []) (outfall_ids sim), times = []\<rparr>))"

text \<open>
  The words of the claims about rules. A rule matches the depths of the simulation when
  the branch it takes reaches the assignment of the setting: its first entry names a node,
  its second entry is a number, and either the rule is a \<open>'higher'\<close> rule and the depth is
  above the level, or it is a \<open>'lower'\<close> rule (and no \<open>'higher'\<close> rule) and the depth is
  at or below the level. A rule is well formed when it has the four entries of the
  documentation, with a node of the model.
\<close>

fun rule_matches :: "simulation \<Rightarrow> rule \<Rightarrow> bool" where
  "rule_matches sim (PStr node # PNum level # rest) =
     (case node_depth sim node of
        None \<Rightarrow> False
      | Some depth \<Rightarrow>
          (if ''higher'' \<in> set (lowered_strings (PStr node # PNum level # rest))
           then depth > level
           else if ''lower'' \<in> set (lowered_strings (PStr node # PNum level # rest))
           then depth \<le> level
           else False))"
| "rule_matches sim rule = False"

fun well_formed :: "simulation \<Rightarrow> rule \<Rightarrow> bool" where
  "well_formed sim [PStr node, PNum level, PNum setting, PStr direction] =
     (node_depth sim node \<noteq> None)"
| "well_formed sim rule = False"

definition setting_of :: "rule \<Rightarrow> real" where
  "setting_of rule = (case item rule 2 of Inr (PNum setting) \<Rightarrow> setting | _ \<Rightarrow> 0)"

text \<open>
  Examples: a part of the rule dictionary of the documentation of \<open>run_model\<close>, a rule
  dictionary whose only rule has a string where the level belongs, and a simulation with
  three pumps, one outfall and the depths of two nodes.
\<close>

definition example_rules :: rule_dictionary where
  "example_rules =
     [(''p_2_1'', [[PStr ''j_2'', PNum 0.5, PNum 1, PStr ''higher''],
                   [PStr ''j_2'', PNum 0.2, PNum 0, PStr ''lower''],
                   [PStr ''j_2'', PNum 1.5, PNum 0.5, PStr ''higher'']]),
      (''p_20_2'', [[PStr ''j_20'', PNum 0.3, PNum 1, PStr ''higher''],
                    [PStr ''j_20'', PNum 0.2, PNum 0, PStr ''lower'']])]"

definition example_bad_rules :: rule_dictionary where
  "example_bad_rules =
     [(''p_2_1'', [[PStr ''j_2'', PStr ''0.5'', PNum 1, PStr ''higher'']])]"

definition example_sim :: simulation where
  "example_sim =
     \<lparr>pump_ids = [''p_2_1'', ''p_20_2'', ''p_21_2''],
      outfall_ids = [''cso_1''],
      node_depth = [''j_2'' \<mapsto> 2, ''j_20'' \<mapsto> 0.25],
      target_setting = (\<lambda>link. 1),
      total_inflow = (\<lambda>node. 0),
      current_time = 0\<rparr>"

section \<open>Properties of the mass balance\<close>

lemma cas_step_tracked:
  "storage_tracked (cas_step c w t s q) =
     storage_tracked s @ [available_storage (cas_step c w t s q)]"
  by (simp add: cas_step_def Let_def)

lemma cas_step_bounds:
  assumes "0 \<le> c" and "0 \<le> available_storage s" and "available_storage s \<le> c"
  shows "0 \<le> available_storage (cas_step c w t s q) \<and> available_storage (cas_step c w t s q) \<le> c"
  using assms by (simp add: cas_step_def Let_def)

lemma cas_step_overflow_mono:
  assumes "0 \<le> available_storage s"
  shows "total_cso_volume s \<le> total_cso_volume (cas_step c w t s q)"
  using assms by (simp add: cas_step_def Let_def)

lemma cas_loop_snoc:
  "cas_loop c w t s (qs @ [q]) = cas_step c w t (cas_loop c w t s qs) q"
  by (induction qs arbitrary: s) simp_all

lemma cas_loop_length:
  "length (storage_tracked (cas_loop c w t s qs)) = length (storage_tracked s) + length qs"
proof (induction qs arbitrary: s)
  case Nil
  show ?case by simp
next
  case (Cons q qs)
  show ?case by (simp add: Cons.IH cas_step_tracked)
qed

lemma cas_loop_bounds:
  assumes "0 \<le> c" and "0 \<le> available_storage s" and "available_storage s \<le> c"
    and "\<forall>v \<in> set (storage_tracked s). 0 \<le> v \<and> v \<le> c"
  shows "0 \<le> available_storage (cas_loop c w t s qs) \<and>
         available_storage (cas_loop c w t s qs) \<le> c \<and>
         (\<forall>v \<in> set (storage_tracked (cas_loop c w t s qs)). 0 \<le> v \<and> v \<le> c)"
  using assms
proof (induction qs arbitrary: s)
  case Nil
  then show ?case by simp
next
  case (Cons q qs)
  have b: "0 \<le> available_storage (cas_step c w t s q) \<and>
           available_storage (cas_step c w t s q) \<le> c"
    using Cons.prems by (intro cas_step_bounds) simp_all
  have tr: "\<forall>v \<in> set (storage_tracked (cas_step c w t s q)). 0 \<le> v \<and> v \<le> c"
    using Cons.prems(4) b by (simp add: cas_step_tracked)
  show ?case
    using Cons.IH [of "cas_step c w t s q"] Cons.prems(1) b tr by simp
qed

lemma cas_init_bounds:
  "0 \<le> c \<Longrightarrow> 0 \<le> available_storage (cas_loop c w t (cas_init c) qs) \<and>
     available_storage (cas_loop c w t (cas_init c) qs) \<le> c \<and>
     (\<forall>v \<in> set (storage_tracked (cas_loop c w t (cas_init c) qs)). 0 \<le> v \<and> v \<le> c)"
  by (rule cas_loop_bounds) (simp_all add: cas_init_def)

lemma run_CAS_model_built:
  "total_system_volume self = Some c \<Longrightarrow>
     run_CAS_model self w qs t =
       Inr (total_cso_volume (cas_loop c w t (cas_init c) qs),
            storage_tracked (cas_loop c w t (cas_init c) qs))"
  by (simp add: run_CAS_model_def Let_def)

lemma run_CAS_model_overflow_after:
  "total_system_volume self = Some c \<Longrightarrow>
     map_sum id fst (run_CAS_model self w qs t) = Inr (overflow_after c w t qs (length qs))"
  by (simp add: run_CAS_model_built overflow_after_def)

text \<open>
  C1. The specification's Scenario B (capacity 100, no treatment, time step 1, inflow
  50 then 80) expects an overflow of 30, the shortfall taken with the storage left before
  the reset. The source resets the storage first, so the run returns an overflow of 80
  with the trajectory 50, 0.
\<close>

theorem run_CAS_model_scenario_B:
  "run_CAS_model \<lparr>model_path = ''model.inp'', total_system_volume = Some 100\<rparr> 0 [50, 80] 1
     = Inr (80, [50, 0])"
  by (simp add: run_CAS_model_def cas_init_def cas_step_def Let_def)

text \<open>
  C2. In the overflow branch the amount added to the overflow total is
  \<open>demand - drain = (inflow_t - wwtp_capacity) * time_step\<close>: it does not depend on the
  storage that was left at the start of the step, nor on the capacity.
\<close>

theorem overflow_increment_state_independent:
  assumes "inflow_t * time_step > wwtp_capacity * time_step + available_storage s"
  shows "total_cso_volume (cas_step capacity wwtp_capacity time_step s inflow_t)
           - total_cso_volume s
         = inflow_t * time_step - wwtp_capacity * time_step
       \<and> inflow_t * time_step - wwtp_capacity * time_step
         = (inflow_t - wwtp_capacity) * time_step
       \<and> available_storage (cas_step capacity wwtp_capacity time_step s inflow_t) = 0"
  using assms by (simp add: cas_step_def Let_def algebra_simps)

theorem overflow_increment_state_independent_witness:
  "total_cso_volume
     (cas_step 100 0 1 \<lparr>available_storage = 50, total_cso_volume = 7, storage_tracked = [50]\<rparr> 80)
     - 7 = 80
   \<and> total_cso_volume
     (cas_step 100 0 1 \<lparr>available_storage = 20, total_cso_volume = 7, storage_tracked = [20]\<rparr> 80)
     - 7 = 80"
  using overflow_increment_state_independent
          [of 0 1 "\<lparr>available_storage = 50, total_cso_volume = 7, storage_tracked = [50]\<rparr>"
              80 100]
        overflow_increment_state_independent
          [of 0 1 "\<lparr>available_storage = 20, total_cso_volume = 7, storage_tracked = [20]\<rparr>"
              80 100]
  by simp

text \<open>
  C4. When the capacity is not negative, a run returns a trajectory with one element per
  inflow sample, and every element lies between 0 and the capacity. Nothing is asked of
  the treatment capacity, the time step or the inflow values.
\<close>

theorem storage_trajectory_bounded:
  assumes "total_system_volume self = Some capacity" and "0 \<le> capacity"
  shows "\<exists>overflow trajectory.
           run_CAS_model self wwtp_capacity inflow time_step = Inr (overflow, trajectory)
         \<and> length trajectory = length inflow
         \<and> (\<forall>v \<in> set trajectory. 0 \<le> v \<and> v \<le> capacity)"
proof -
  let ?s = "cas_loop capacity wwtp_capacity time_step (cas_init capacity) inflow"
  have r: "run_CAS_model self wwtp_capacity inflow time_step
             = Inr (total_cso_volume ?s, storage_tracked ?s)"
    using assms(1) by (rule run_CAS_model_built)
  have l: "length (storage_tracked ?s) = length inflow"
    by (simp add: cas_loop_length cas_init_def)
  have b: "\<forall>v \<in> set (storage_tracked ?s). 0 \<le> v \<and> v \<le> capacity"
    using cas_init_bounds [OF assms(2)] by blast
  show ?thesis using r l b by blast
qed

theorem storage_trajectory_bounded_witness:
  "\<exists>overflow trajectory.
     run_CAS_model \<lparr>model_path = ''model.inp'', total_system_volume = Some 100\<rparr> 2 [50, 80, 1] 3
       = Inr (overflow, trajectory)
   \<and> length trajectory = 3
   \<and> (\<forall>v \<in> set trajectory. 0 \<le> v \<and> v \<le> 100)"
  using storage_trajectory_bounded
          [of "\<lparr>model_path = ''model.inp'', total_system_volume = Some 100\<rparr>" 100 2
              "[50, 80, 1]" 3]
  by (simp add: numeral_3_eq_3)

text \<open>
  C5. When the capacity is not negative, the running overflow total never decreases from
  one sample to the next: the total after \<open>k + 1\<close> samples is at least the total after
  \<open>k\<close> samples, for every \<open>k\<close>.
\<close>

theorem overflow_non_decreasing:
  assumes "0 \<le> capacity"
  shows "overflow_after capacity wwtp_capacity time_step inflow k
           \<le> overflow_after capacity wwtp_capacity time_step inflow (Suc k)"
proof (cases "k < length inflow")
  case True
  let ?s = "cas_loop capacity wwtp_capacity time_step (cas_init capacity) (take k inflow)"
  have "take (Suc k) inflow = take k inflow @ [inflow ! k]"
    using True by (rule take_Suc_conv_app_nth)
  then have "overflow_after capacity wwtp_capacity time_step inflow (Suc k)
               = total_cso_volume (cas_step capacity wwtp_capacity time_step ?s (inflow ! k))"
    by (simp add: overflow_after_def cas_loop_snoc)
  moreover have "0 \<le> available_storage ?s"
    using cas_init_bounds [OF assms] by blast
  ultimately show ?thesis
    using cas_step_overflow_mono [of ?s] by (simp add: overflow_after_def)
next
  case False
  then show ?thesis by (simp add: overflow_after_def)
qed

theorem overflow_non_decreasing_witness:
  "overflow_after 100 0 1 [50, 80, 90] 1 \<le> overflow_after 100 0 1 [50, 80, 90] (Suc 1)
   \<and> overflow_after 100 0 1 [50, 80, 90] 2 = 80"
  using overflow_non_decreasing [of 100 0 1 "[50, 80, 90]" 1]
  by (simp add: overflow_after_def cas_init_def cas_step_def Let_def numeral_2_eq_2)

text \<open>
  C8. The specification lets \<open>run_CAS_model\<close> abort on an empty inflow, a non-positive
  time step or a non-positive treatment capacity. The source checks none of them: with an
  empty inflow it returns an overflow of 0 and an empty trajectory, and with a time step
  and a treatment capacity of 0 it returns as well.
\<close>

theorem run_CAS_model_malformed_counterexample:
  "spec_malformed 1 [] 1
   \<and> run_CAS_model \<lparr>model_path = ''model.inp'', total_system_volume = Some 100\<rparr> 1 [] 1
       = Inr (0, [])
   \<and> spec_malformed 0 [5] 0
   \<and> run_CAS_model \<lparr>model_path = ''model.inp'', total_system_volume = Some 100\<rparr> 0 [5] 0
       = Inr (0, [100])"
  by (simp add: spec_malformed_def run_CAS_model_def cas_init_def cas_step_def Let_def)

text \<open>
  C8, amended. \<open>run_CAS_model\<close> validates none of its arguments: it fails exactly when the
  total system volume has not been built (the attribute is missing), whatever the inflow,
  the time step and the treatment capacity are; once the volume is built, an empty inflow
  returns an overflow of 0 with an empty trajectory.
\<close>

theorem run_CAS_model_fails_iff_unbuilt:
  "((\<exists>e. run_CAS_model self wwtp_capacity inflow time_step = Inl e)
      \<longleftrightarrow> total_system_volume self = None)
   \<and> (total_system_volume self \<noteq> None \<longrightarrow>
        run_CAS_model self wwtp_capacity [] time_step = Inr (0, []))"
  by (cases "total_system_volume self")
     (simp_all add: run_CAS_model_def cas_init_def Let_def)

theorem run_CAS_model_fails_iff_unbuilt_witness:
  "\<not> (\<exists>e. run_CAS_model \<lparr>model_path = ''model.inp'', total_system_volume = Some 100\<rparr>
             (- 1) [5, 6] 0 = Inl e)
   \<and> run_CAS_model \<lparr>model_path = ''model.inp'', total_system_volume = Some 100\<rparr>
             (- 1) [] 0 = Inr (0, [])
   \<and> (\<exists>e. run_CAS_model \<lparr>model_path = ''model.inp'', total_system_volume = None\<rparr>
             1 [5, 6] 1 = Inl e)"
  using run_CAS_model_fails_iff_unbuilt
          [of "\<lparr>model_path = ''model.inp'', total_system_volume = Some 100\<rparr>" "- 1" "[5, 6]" 0]
        run_CAS_model_fails_iff_unbuilt
          [of "\<lparr>model_path = ''model.inp'', total_system_volume = None\<rparr>" 1 "[5, 6]" 1]
  by simp

section \<open>Properties of the volume integrator\<close>

declare curve_loop.simps [simp del]

lemma reads_as_length: "reads_as F ac curve \<Longrightarrow> length ac = length curve"
  unfolding reads_as_def by (drule arg_cong [where f = length]) simp

lemma reads_as_nth:
  assumes "reads_as F ac curve" and "i < length curve"
  shows "curve_field F ac i 2 = Inr (fst (curve ! i))"
    and "curve_field F ac i 1 = Inr (snd (curve ! i))"
proof -
  have len: "length ac = length curve" using assms(1) by (rule reads_as_length)
  have "map (\<lambda>i. (curve_field F ac i 2, curve_field F ac i 1)) [0 ..< length ac] ! i
          = map (\<lambda>(d, a). (Inr d, Inr a)) curve ! i"
    using assms(1) unfolding reads_as_def by simp
  then have "(curve_field F ac i 2, curve_field F ac i 1)
               = (Inr (fst (curve ! i)), Inr (snd (curve ! i)))"
    using assms(2) len by (simp add: case_prod_beta)
  then show "curve_field F ac i 2 = Inr (fst (curve ! i))"
    and "curve_field F ac i 1 = Inr (snd (curve ! i))" by simp_all
qed

lemma curve_field_outside: "length ac \<le> i \<Longrightarrow> curve_field F ac i k = Inl IndexError"
  by (simp add: curve_field_def item_def)


lemma curve_loop_step:
  assumes "reads_as F ac curve" and "sp < thr" and "Suc count < length curve"
  shows "curve_loop F ac thr sp count vol =
           curve_loop F ac thr (sp + (fst (curve ! Suc count) - fst (curve ! count)))
             (Suc count) (vol + trapezoid curve count)"
proof -
  have a0: "curve_field F ac count 1 = Inr (snd (curve ! count))"
    and d0: "curve_field F ac count 2 = Inr (fst (curve ! count))"
    using reads_as_nth [OF assms(1), of count] assms(3) by simp_all
  have a1: "curve_field F ac (count + 1) 1 = Inr (snd (curve ! Suc count))"
    and d1: "curve_field F ac (count + 1) 2 = Inr (fst (curve ! Suc count))"
    using reads_as_nth [OF assms(1), of "Suc count"] assms(3) by simp_all
  show ?thesis
    apply (subst curve_loop.simps)
    apply (simp only: a0 a1 d0 d1 sum.case)
    apply (simp add: assms(2) trapezoid_def)
    done
qed

lemma curve_loop_short:
  assumes "reads_as F ac curve" and "sp < thr" and "length curve \<le> Suc count"
  shows "curve_loop F ac thr sp count vol = Inl IndexError"
proof (cases "count < length curve")
  case True
  have a0: "curve_field F ac count 1 = Inr (snd (curve ! count))"
    using reads_as_nth [OF assms(1), of count] True by simp
  have a1: "curve_field F ac (count + 1) 1 = Inl IndexError"
    using assms(3) reads_as_length [OF assms(1)] by (simp add: curve_field_outside)
  show ?thesis
    apply (subst curve_loop.simps)
    apply (simp only: a0 a1 sum.case)
    apply (simp add: assms(2))
    done
next
  case False
  have a0: "curve_field F ac count 1 = Inl IndexError"
    using False reads_as_length [OF assms(1)] by (simp add: curve_field_outside)
  show ?thesis
    apply (subst curve_loop.simps)
    apply (simp only: a0 sum.case)
    apply (simp add: assms(2))
    done
qed

lemma trapezoids_Suc: "trapezoids curve (Suc n) = trapezoids curve n + trapezoid curve n"
  by (simp add: trapezoids_def)

lemma curve_loop_run:
  assumes r: "reads_as F ac curve"
    and below: "\<forall>i < j. fst (curve ! i) - fst (curve ! 0) < thr"
    and j: "j < length curve"
  shows "curve_volume F ac thr =
           curve_loop F ac thr (fst (curve ! j) - fst (curve ! 0)) j (trapezoids curve j)"
  using below j
proof (induction j)
  case 0
  show ?case by (simp add: curve_volume_def trapezoids_def)
next
  case (Suc j)
  have "curve_volume F ac thr =
          curve_loop F ac thr (fst (curve ! j) - fst (curve ! 0)) j (trapezoids curve j)"
    using Suc by simp
  also have "\<dots> = curve_loop F ac thr
                     (fst (curve ! j) - fst (curve ! 0) + (fst (curve ! Suc j) - fst (curve ! j)))
                     (Suc j) (trapezoids curve j + trapezoid curve j)"
    using Suc.prems by (intro curve_loop_step [OF r]) simp_all
  finally show ?case by (simp add: trapezoids_Suc)
qed

lemma increasing_below:
  assumes "sorted_wrt (<) (map fst curve)" and "k < length curve"
    and "fst (curve ! k) - fst (curve ! 0) < thr"
  shows "\<forall>i < Suc k. fst (curve ! i) - fst (curve ! 0) < (thr::real)"
proof (intro allI impI)
  fix i assume "i < Suc k"
  then have "i = k \<or> i < k" by auto
  then show "fst (curve ! i) - fst (curve ! 0) < thr"
  proof
    assume "i = k" then show ?thesis using assms(3) by simp
  next
    assume "i < k"
    then have "map fst curve ! i < map fst curve ! k"
      using sorted_wrt_nth_less [OF assms(1), of i k] assms(2) by simp
    then have "fst (curve ! i) < fst (curve ! k)"
      using assms(2) \<open>i < k\<close> by simp
    then show ?thesis using assms(3) by simp
  qed
qed


lemma curve_volume_too_short:
  assumes "reads_as F ac curve" and "sorted_wrt (<) (map fst curve)"
    and "curve \<noteq> []"
    and "fst (last curve) - fst (curve ! 0) < thr"
  shows "curve_volume F ac thr = Inl IndexError"
proof -
  let ?n = "length curve - 1"
  have n: "?n < length curve" using assms(3) by simp
  have l: "last curve = curve ! ?n" using assms(3) by (simp add: last_conv_nth)
  have "\<forall>i < Suc ?n. fst (curve ! i) - fst (curve ! 0) < thr"
    using assms(2,4) n l by (intro increasing_below) simp_all
  then have "curve_volume F ac thr =
          curve_loop F ac thr (fst (curve ! ?n) - fst (curve ! 0)) ?n (trapezoids curve ?n)"
    using n by (intro curve_loop_run [OF assms(1)]) simp_all
  also have "\<dots> = Inl IndexError"
    using assms(4) l by (intro curve_loop_short [OF assms(1)]) simp_all
  finally show ?thesis .
qed

lemma curve_volume_absent:
  "0 < thr \<Longrightarrow> curve_volume F [] thr = Inl IndexError"
  by (simp add: curve_volume_def curve_loop.simps curve_field_def item_def)





section \<open>Properties of the capacity build\<close>

lemma storage_loop_resolved:
  assumes "list_all2 (\<lambda>stor v. storage_volume F rm stor = Inr v) storage volumes"
  shows "storage_loop F rm acc storage = (None, acc + sum_list volumes)"
  using assms
proof (induction storage volumes arbitrary: acc rule: list_all2_induct)
  case Nil
  show ?case by simp
next
  case (Cons stor v storage volumes)
  show ?case using Cons.hyps(1) by (simp add: Cons.IH add.assoc)
qed

lemma storage_loop_failing:
  assumes "list_all2 (\<lambda>stor v. storage_volume F rm stor = Inr v) processed volumes"
    and "storage_volume F rm failing = Inl e"
  shows "storage_loop F rm acc (processed @ failing # rest) = (Some e, acc + sum_list volumes)"
  using assms(1)
proof (induction processed volumes arbitrary: acc rule: list_all2_induct)
  case Nil
  show ?case using assms(2) by simp
next
  case (Cons stor v processed volumes)
  show ?case using Cons.hyps(1) by (simp add: Cons.IH add.assoc)
qed

lemma first_item_error: "first_item xs = Inl e \<Longrightarrow> e = IndexError"
  by (cases xs) simp_all

lemma storage_line_no_match:
  assumes "\<forall>l \<in> set read_model. \<not> contains name l"
  shows "storage_line read_model name = Inl IndexError"
proof -
  have "filter (\<lambda>k. contains name (read_model ! k)) [start ..< length read_model] = []" for start
    using assms by (auto simp: filter_empty_conv)
  then show ?thesis
    by (auto simp: storage_line_def split: sum.split dest: first_item_error)
qed

lemma storage_volume_no_match:
  "\<forall>l \<in> set read_model. \<not> contains (fst stor) l \<Longrightarrow>
     storage_volume F read_model stor = Inl IndexError"
  by (simp add: storage_volume_def storage_line_no_match)

text \<open>
  C9. The specification wants a failing build to leave no partial capacity behind. With
  the example file and the entries \<open>S2\<close> (threshold 2) and \<open>XX\<close> (no such node), the
  second entry raises IndexError, and the object, which had no total system volume
  before, is left with the volume 2000 of the first entry.
\<close>

theorem create_CAS_model_partial_sum_counterexample:
  "create_CAS_model float_of_digits [''model.inp'' \<mapsto> example_inp]
     \<lparr>model_path = ''model.inp'', total_system_volume = None\<rparr>
     [(''S2'', 2), (''XX'', 1)]
   = (Inl IndexError, \<lparr>model_path = ''model.inp'', total_system_volume = Some 2000\<rparr>)"
  by code_simp

text \<open>
  C9, amended. When an entry of \<open>storage\<close> raises, \<open>create_CAS_model\<close> raises that
  exception and returns no capacity, but the build is not atomic: the total system volume
  of the object has been reset and is left holding the sum of the volumes of the entries
  processed before the failing one.
\<close>

theorem create_CAS_model_partial_sum:
  assumes "files (model_path self) = Some read_model"
    and "list_all2 (\<lambda>stor v. storage_volume float_py read_model stor = Inr v) processed volumes"
    and "storage_volume float_py read_model failing = Inl e"
  shows "create_CAS_model float_py files self (processed @ failing # rest)
           = (Inl e, self\<lparr>total_system_volume := Some (sum_list volumes)\<rparr>)"
proof -
  have "first_item (processed @ failing # rest) = Inr (hd (processed @ failing # rest))"
    by (cases processed) simp_all
  moreover have "storage_loop float_py read_model 0 (processed @ failing # rest)
                   = (Some e, sum_list volumes)"
    using storage_loop_failing [OF assms(2,3), of 0 rest] by simp
  ultimately show ?thesis
    using assms(1) by (simp add: create_CAS_model_def)
qed

lemma example_resolved:
  "list_all2 (\<lambda>stor v. storage_volume float_of_digits example_inp stor = Inr v)
     [(''S1'', 12), (''S2'', 2)] [90, 2000]"
  by code_simp

lemma example_failing:
  "storage_volume float_of_digits example_inp (''S1'', 21) = Inl IndexError"
  by code_simp

theorem create_CAS_model_partial_sum_witness:
  "create_CAS_model float_of_digits [''model.inp'' \<mapsto> example_inp]
     \<lparr>model_path = ''model.inp'', total_system_volume = Some 7\<rparr>
     [(''S1'', 12), (''S2'', 2), (''S1'', 21), (''S2'', 1)]
   = (Inl IndexError, \<lparr>model_path = ''model.inp'', total_system_volume = Some 2090\<rparr>)"
  using create_CAS_model_partial_sum
          [of "[''model.inp'' \<mapsto> example_inp]"
              "\<lparr>model_path = ''model.inp'', total_system_volume = Some 7\<rparr>"
              example_inp float_of_digits "[(''S1'', 12), (''S2'', 2)]" "[90, 2000]"
              "(''S1'', 21)" IndexError "[(''S2'', 1)]",
           OF _ example_resolved example_failing]
  by simp

section \<open>Properties of the control step\<close>

lemma apply_rule_cases:
  "apply_rule sim pump rule = Inr sim
   \<or> (\<exists>e. apply_rule sim pump rule = Inl e)
   \<or> (rule_matches sim rule
      \<and> apply_rule sim pump rule =
          Inr (sim\<lparr>target_setting := (target_setting sim)(pump := setting_of rule)\<rparr>))"
proof (cases rule)
  case Nil
  then show ?thesis by (simp add: apply_rule_def)
next
  case (Cons key r1)
  show ?thesis
  proof (cases key)
    case (PNum x)
    then show ?thesis using Cons by (simp add: apply_rule_def item_def depth_of_def)
  next
    case (PStr node)
    show ?thesis
    proof (cases "node_depth sim node")
      case None
      then show ?thesis using Cons PStr by (simp add: apply_rule_def item_def depth_of_def)
    next
      case (Some d)
      show ?thesis
      proof (cases r1)
        case Nil
        then show ?thesis
          using Cons PStr Some by (simp add: apply_rule_def item_def depth_of_def)
      next
        case (Cons level r2)
        note r1 = Cons
        show ?thesis
        proof (cases level)
          case (PStr s)
          then show ?thesis
            using \<open>rule = key # r1\<close> \<open>key = PStr node\<close> Some r1
            by (simp add: apply_rule_def item_def depth_of_def gt_py_def le_py_def)
        next
          case (PNum x)
          have shape: "rule = PStr node # PNum x # r2"
            using \<open>rule = key # r1\<close> \<open>key = PStr node\<close> r1 PNum by simp
          show ?thesis
          proof (cases r2)
            case Nil
            then show ?thesis
              using shape Some
              by (simp add: apply_rule_def item_def depth_of_def gt_py_def le_py_def)
          next
            case (Cons setting r3)
            then show ?thesis
              using shape Some
              by (cases setting)
                 (simp_all add: apply_rule_def item_def depth_of_def gt_py_def
                                le_py_def set_target_setting_def setting_of_def)
          qed
        qed
      qed
    qed
  qed
qed

lemma apply_rule_no_match:
  assumes "\<not> rule_matches sim rule"
  shows "apply_rule sim pump rule = Inr sim \<or> (\<exists>e. apply_rule sim pump rule = Inl e)"
  using assms apply_rule_cases [of sim pump rule] by blast

lemma apply_rule_well_formed:
  assumes "well_formed sim rule"
  shows "apply_rule sim pump rule =
           Inr (if rule_matches sim rule
                then sim\<lparr>target_setting := (target_setting sim)(pump := setting_of rule)\<rparr>
                else sim)"
proof -
  obtain node level setting direction where
    shape: "rule = [PStr node, PNum level, PNum setting, PStr direction]"
    and node: "node_depth sim node \<noteq> None"
    using assms by (auto elim: well_formed.elims(2))
  from node obtain d where d: "node_depth sim node = Some d" by blast
  show ?thesis
    using d
    by (simp add: shape apply_rule_def item_def depth_of_def gt_py_def
                  le_py_def set_target_setting_def setting_of_def)
qed

lemma apply_rule_other:
  assumes "apply_rule sim pump rule = Inr sim'"
  shows "node_depth sim' = node_depth sim
       \<and> (\<forall>q. q \<noteq> pump \<longrightarrow> target_setting sim' q = target_setting sim q)"
  using assms apply_rule_cases [of sim pump rule] by auto

lemma rule_matches_depth:
  "node_depth sim' = node_depth sim \<Longrightarrow> rule_matches sim' rule = rule_matches sim rule"
  by (induction sim rule rule: rule_matches.induct) simp_all

lemma well_formed_depth:
  "node_depth sim' = node_depth sim \<Longrightarrow> well_formed sim' rule = well_formed sim rule"
  by (induction sim rule rule: well_formed.induct) simp_all

lemma rules_loop_no_match:
  assumes "\<forall>r \<in> set rules. \<not> rule_matches sim r"
  shows "snd (rules_loop sim pump rules) = sim"
  using assms
proof (induction rules)
  case Nil
  show ?case by simp
next
  case (Cons r rules)
  have "apply_rule sim pump r = Inr sim \<or> (\<exists>e. apply_rule sim pump r = Inl e)"
    using Cons.prems by (intro apply_rule_no_match) simp
  then show ?case using Cons by auto
qed

lemma rules_loop_other:
  "node_depth (snd (rules_loop sim pump rules)) = node_depth sim
   \<and> (\<forall>q. q \<noteq> pump \<longrightarrow>
         target_setting (snd (rules_loop sim pump rules)) q = target_setting sim q)"
proof (induction rules arbitrary: sim)
  case Nil
  show ?case by simp
next
  case (Cons r rules)
  show ?case
  proof (cases "apply_rule sim pump r")
    case (Inl e)
    then show ?thesis by simp
  next
    case (Inr sim')
    then show ?thesis
      using Cons.IH [of sim'] apply_rule_other [OF Inr] by simp
  qed
qed

lemma try_pump_other:
  "node_depth (snd (try_pump rd sim pump)) = node_depth sim
   \<and> (\<forall>q. q \<noteq> pump \<longrightarrow>
         target_setting (snd (try_pump rd sim pump)) q = target_setting sim q)"
  using rules_loop_other [of sim pump]
  by (simp add: try_pump_def split: option.split)

lemma try_pump_no_match:
  assumes "\<forall>rules. map_of rd pump = Some rules \<longrightarrow> (\<forall>r \<in> set rules. \<not> rule_matches sim r)"
  shows "snd (try_pump rd sim pump) = sim"
  using assms by (simp add: try_pump_def rules_loop_no_match split: option.split)

lemma pumps_loop_Cons:
  "pumps_loop rd sim (q # pumps) =
     (if fst (try_pump rd sim q) = None
      then pumps_loop rd (snd (try_pump rd sim q)) pumps
      else (Some (not_specified q), snd (try_pump rd sim q)))"
  by (cases "try_pump rd sim q") (auto split: option.split)

lemma pumps_loop_no_match:
  assumes "\<forall>rules. map_of rd pump = Some rules \<longrightarrow> (\<forall>r \<in> set rules. \<not> rule_matches sim r)"
  shows "target_setting (snd (pumps_loop rd sim pumps)) pump = target_setting sim pump"
  using assms
proof (induction pumps arbitrary: sim)
  case Nil
  show ?case by simp
next
  case (Cons q pumps)
  let ?s = "snd (try_pump rd sim q)"
  have d: "node_depth ?s = node_depth sim" using try_pump_other [of rd sim q] by simp
  have t: "target_setting ?s pump = target_setting sim pump"
  proof (cases "q = pump")
    case True
    then show ?thesis using try_pump_no_match [OF Cons.prems] by simp
  next
    case False
    then show ?thesis using try_pump_other [of rd sim q] by simp
  qed
  have nm: "\<forall>rules. map_of rd pump = Some rules \<longrightarrow> (\<forall>r \<in> set rules. \<not> rule_matches ?s r)"
    using Cons.prems by (simp add: rule_matches_depth [OF d])
  show ?case
  proof (cases "fst (try_pump rd sim q)")
    case None
    then show ?thesis using Cons.IH [OF nm] t by (simp add: pumps_loop_Cons del: pumps_loop.simps)
  next
    case (Some e)
    then show ?thesis using t by (simp add: pumps_loop_Cons del: pumps_loop.simps)
  qed
qed

lemma rules_loop_snoc:
  "rules_loop sim pump (rules @ [r]) =
     (case rules_loop sim pump rules of
        (Some e, sim') \<Rightarrow> (Some e, sim')
      | (None, sim') \<Rightarrow> rules_loop sim' pump [r])"
  by (induction rules arbitrary: sim) (simp_all split: sum.split)

lemma rules_loop_last_match:
  assumes "\<forall>r \<in> set rules. well_formed sim r"
  shows "rules_loop sim pump rules =
           (None, if filter (rule_matches sim) rules = [] then sim
                  else sim\<lparr>target_setting := (target_setting sim)
                         (pump := setting_of (last (filter (rule_matches sim) rules)))\<rparr>)"
  using assms
proof (induction rules rule: rev_induct)
  case Nil
  show ?case by simp
next
  case (snoc r rules)
  let ?s = "if filter (rule_matches sim) rules = [] then sim
            else sim\<lparr>target_setting := (target_setting sim)
                   (pump := setting_of (last (filter (rule_matches sim) rules)))\<rparr>"
  have run: "rules_loop sim pump rules = (None, ?s)" using snoc by simp
  have d: "node_depth ?s = node_depth sim" by simp
  have wf: "well_formed ?s r" using snoc.prems by (simp add: well_formed_depth [OF d])
  have m: "rule_matches ?s r = rule_matches sim r" by (rule rule_matches_depth [OF d])
  have "rules_loop sim pump (rules @ [r]) = rules_loop ?s pump [r]"
    by (simp only: rules_loop_snoc run prod.case option.case)
  also have "\<dots> = (None, if rule_matches sim r
                          then ?s\<lparr>target_setting := (target_setting ?s)(pump := setting_of r)\<rparr>
                          else ?s)"
    using apply_rule_well_formed [OF wf, of pump] m by simp
  finally show ?case by simp
qed


lemma pumps_loop_append:
  "pumps_loop rd sim (before @ pumps) =
     (if fst (pumps_loop rd sim before) = None
      then pumps_loop rd (snd (pumps_loop rd sim before)) pumps
      else pumps_loop rd sim before)"
proof (induction before arbitrary: sim)
  case Nil
  show ?case by simp
next
  case (Cons q before)
  show ?case
    by (simp add: pumps_loop_Cons Cons.IH del: pumps_loop.simps)
qed

lemma try_pump_missing: "map_of rd pump = None \<Longrightarrow> fst (try_pump rd sim pump) = Some KeyError"
  by (simp add: try_pump_def)

lemma pumps_loop_missing_first:
  assumes "map_of rd pump = None" and "fst (pumps_loop rd sim before) = None"
  shows "fst (pumps_loop rd sim (before @ pump # after)) = Some (not_specified pump)"
  using assms
  by (simp add: pumps_loop_append pumps_loop_Cons try_pump_missing del: pumps_loop.simps)

lemma pumps_loop_missing_some:
  assumes "pump \<in> set pumps" and "map_of rd pump = None"
  shows "\<exists>q \<in> set pumps. fst (pumps_loop rd sim pumps) = Some (not_specified q)"
  using assms(1)
proof (induction pumps arbitrary: sim)
  case Nil
  then show ?case by simp
next
  case (Cons q pumps)
  show ?case
  proof (cases "fst (try_pump rd sim q)")
    case (Some e)
    then show ?thesis by (simp add: pumps_loop_Cons del: pumps_loop.simps)
  next
    case None
    then have "q \<noteq> pump" using try_pump_missing [OF assms(2), of sim] by auto
    then have "pump \<in> set pumps" using Cons.prems by simp
    then show ?thesis
      using Cons.IH [of "snd (try_pump rd sim q)"] None
      by (simp add: pumps_loop_Cons del: pumps_loop.simps)
  qed
qed

lemma steps_loop_stops:
  assumes "advance sim = Some sim1" and "fst (pumps_loop rd sim1 pumps) = Some e"
  shows "steps_loop advance rd pumps outfalls sim r = Some (ErrorObject e)"
  using assms
  by (subst steps_loop.simps) (cases "pumps_loop rd sim1 pumps", simp)

lemma steps_loop_ends:
  "advance sim = None \<Longrightarrow>
     steps_loop advance rd pumps outfalls sim r = Some (DataFrame outfalls (outfall_results r))"
  by (subst steps_loop.simps) simp

lemma run_model_stops:
  assumes "rd \<noteq> []" and "advance sim = Some sim1"
    and "fst (pumps_loop rd sim1 (pump_ids sim)) = Some e"
  shows "run_model advance rd sim = Some (Inr (ErrorObject e))"
proof -
  have "first_item (map snd rd) = Inr (snd (hd rd))"
    using assms(1) by (cases rd) simp_all
  then show ?thesis
    using steps_loop_stops [of advance sim sim1 rd "pump_ids sim" e, OF assms(2,3)]
    by (simp add: run_model_def)
qed

lemma not_specified_text:
  "not_specified pump = AttributeError (''Pump '' @ pump @ '' Not Specified in Rules, please add'')"
  by (simp add: not_specified_def)

text \<open>
  C7. The specification lets every configuration with a pump without rules fail with an
  error that names that pump. Three configurations where the source does not: an empty
  rule dictionary raises IndexError at the assertion, before the simulation is opened; a
  simulation without any step returns its table although \<open>p_21_2\<close> has no rules; and
  when the pump \<open>p_2_1\<close>, which has rules, comes before the pumps without rules and its
  rule has a string where the level belongs, the comparison raises TypeError and the
  returned error names \<open>p_2_1\<close>.
\<close>

theorem missing_rule_counterexample:
  "run_model (\<lambda>sim. Some sim) [] example_sim = Some (Inl IndexError)
   \<and> map_of example_rules ''p_21_2'' = None
   \<and> run_model (\<lambda>sim. None) example_rules example_sim
       = Some (Inr (DataFrame [''cso_1''] [[]]))
   \<and> map_of example_bad_rules ''p_2_1'' \<noteq> None
   \<and> map_of example_bad_rules ''p_20_2'' = None
   \<and> run_model (\<lambda>sim. Some sim) example_bad_rules example_sim
       = Some (Inr (ErrorObject
                      (AttributeError ''Pump p_2_1 Not Specified in Rules, please add'')))"
proof -
  have a: "fst (pumps_loop example_bad_rules example_sim (pump_ids example_sim))
             = Some (AttributeError ''Pump p_2_1 Not Specified in Rules, please add'')"
    by code_simp
  have b: "example_bad_rules \<noteq> []" by (simp add: example_bad_rules_def)
  have c: "example_rules \<noteq> []" by (simp add: example_rules_def)
  have "first_item (map snd example_rules) = Inr (snd (hd example_rules))"
    by (simp add: example_rules_def)
  then have d: "run_model (\<lambda>sim. None) example_rules example_sim
       = Some (Inr (DataFrame [''cso_1''] [[]]))"
    by (simp add: run_model_def steps_loop_ends) (simp add: example_sim_def)
  show ?thesis
    using run_model_stops [OF b _ a, of "\<lambda>sim. Some sim"] d
    by (simp add: example_bad_rules_def example_rules_def run_model_def)
qed

text \<open>
  The pump that a control step reports is the first one, in the order of the list, whose
  \<open>try\<close> block raises: the pumps before it are evaluated, the loop stops at it, and the
  pumps after it are not looked at. The same holds for \<open>run_model\<close> at the first step of
  the simulation.
\<close>

lemma pumps_loop_first_raising:
  assumes "fst (pumps_loop rd sim before) = None"
    and "fst (try_pump rd (snd (pumps_loop rd sim before)) q) = Some e"
  shows "pumps_loop rd sim (before @ q # after) =
           (Some (not_specified q), snd (try_pump rd (snd (pumps_loop rd sim before)) q))"
  using assms by (simp add: pumps_loop_append pumps_loop_Cons del: pumps_loop.simps)

lemma pumps_loop_none_raising:
  "fst (pumps_loop rd sim pumps) = None \<Longrightarrow> pump \<in> set pumps \<Longrightarrow> map_of rd pump \<noteq> None"
  using pumps_loop_missing_some [of pump pumps rd sim] by auto

lemma run_model_first_raising:
  assumes "rd \<noteq> []" and "advance sim = Some sim1"
    and "pump_ids sim = before @ q # after"
    and "fst (pumps_loop rd sim1 before) = None"
    and "fst (try_pump rd (snd (pumps_loop rd sim1 before)) q) = Some e"
  shows "run_model advance rd sim = Some (Inr (ErrorObject (not_specified q)))"
proof -
  have "fst (pumps_loop rd sim1 (pump_ids sim)) = Some (not_specified q)"
    using pumps_loop_first_raising [OF assms(4,5), of after] assms(3) by simp
  then show ?thesis using assms(1,2) by (intro run_model_stops) simp_all
qed

text \<open>
  C7, amended. When the rule dictionary is not empty, the simulation makes a first
  control step, and the pumps that the model lists before it are evaluated at that step
  without an exception, a pump of the model without an entry in the rule dictionary makes
  \<open>run_model\<close> stop at that step and return an AttributeError whose text,
  \<open>Pump ... Not Specified in Rules, please add\<close>, names that pump.
\<close>

theorem missing_rule_reported:
  "rule_dictionary \<noteq> [] \<and> advance sim = Some sim1
     \<and> pump_ids sim = before @ pump # after
     \<and> map_of rule_dictionary pump = None
     \<and> fst (pumps_loop rule_dictionary sim1 before) = None
   \<longrightarrow> run_model advance rule_dictionary sim
         = Some (Inr (ErrorObject (AttributeError
              (''Pump '' @ pump @ '' Not Specified in Rules, please add''))))"
proof
  assume h: "rule_dictionary \<noteq> [] \<and> advance sim = Some sim1
     \<and> pump_ids sim = before @ pump # after
     \<and> map_of rule_dictionary pump = None
     \<and> fst (pumps_loop rule_dictionary sim1 before) = None"
  then have "fst (try_pump rule_dictionary
                    (snd (pumps_loop rule_dictionary sim1 before)) pump) = Some KeyError"
    by (simp add: try_pump_missing)
  then have "run_model advance rule_dictionary sim
               = Some (Inr (ErrorObject (not_specified pump)))"
    using h by (intro run_model_first_raising [where before = before and after = after]) simp_all
  then show "run_model advance rule_dictionary sim
         = Some (Inr (ErrorObject (AttributeError
              (''Pump '' @ pump @ '' Not Specified in Rules, please add''))))"
    by (simp add: not_specified_text)
qed

lemma example_before_ok:
  "fst (pumps_loop example_rules example_sim [''p_2_1'', ''p_20_2'']) = None"
  by code_simp

theorem missing_rule_reported_witness:
  "run_model (\<lambda>sim. Some sim) example_rules example_sim
     = Some (Inr (ErrorObject
                    (AttributeError ''Pump p_21_2 Not Specified in Rules, please add'')))"
  using missing_rule_reported
          [where rule_dictionary = example_rules and advance = "\<lambda>sim. Some sim"
             and sim = example_sim and ?sim1.0 = example_sim and pump = "''p_21_2''"
             and before = "[''p_2_1'', ''p_20_2'']" and after = "[]"]
        example_before_ok
  by (simp add: example_rules_def example_sim_def)

text \<open>
  C6. When no rule of a pump matches the depths, the control step leaves the target
  setting of that pump as it is (the \<open>try\<close> block of the pump changes nothing at all);
  and when the rules of a pump are well formed and some match, the \<open>try\<close> block ends
  without an exception and the setting of the pump is that of the last matching rule in
  the order of the list.
\<close>

theorem sticky_and_last_match_wins:
  "(map_of rule_dictionary pump = Some rules \<and> (\<forall>r \<in> set rules. \<not> rule_matches sim r)
    \<longrightarrow> snd (try_pump rule_dictionary sim pump) = sim
        \<and> target_setting (snd (pumps_loop rule_dictionary sim pumps)) pump
            = target_setting sim pump)
   \<and> (map_of rule_dictionary pump = Some rules \<and> (\<forall>r \<in> set rules. well_formed sim r)
      \<and> filter (rule_matches sim) rules \<noteq> []
    \<longrightarrow> try_pump rule_dictionary sim pump
          = (None, sim\<lparr>target_setting := (target_setting sim)
                         (pump := setting_of (last (filter (rule_matches sim) rules)))\<rparr>))"
proof (intro conjI impI)
  assume h: "map_of rule_dictionary pump = Some rules \<and> (\<forall>r \<in> set rules. \<not> rule_matches sim r)"
  then have nm: "\<forall>rs. map_of rule_dictionary pump = Some rs \<longrightarrow>
                      (\<forall>r \<in> set rs. \<not> rule_matches sim r)"
    by simp
  show "snd (try_pump rule_dictionary sim pump) = sim"
    using nm by (rule try_pump_no_match)
  show "target_setting (snd (pumps_loop rule_dictionary sim pumps)) pump = target_setting sim pump"
    using nm by (rule pumps_loop_no_match)
next
  assume h: "map_of rule_dictionary pump = Some rules \<and> (\<forall>r \<in> set rules. well_formed sim r)
      \<and> filter (rule_matches sim) rules \<noteq> []"
  then have "rules_loop sim pump rules
               = (None, sim\<lparr>target_setting := (target_setting sim)
                          (pump := setting_of (last (filter (rule_matches sim) rules)))\<rparr>)"
    using rules_loop_last_match [of rules sim pump] by simp
  then show "try_pump rule_dictionary sim pump
          = (None, sim\<lparr>target_setting := (target_setting sim)
                         (pump := setting_of (last (filter (rule_matches sim) rules)))\<rparr>)"
    using h by (simp add: try_pump_def)
qed

lemma example_no_match:
  "\<forall>r \<in> set [[PStr ''j_20'', PNum 0.3, PNum 1, PStr ''higher''],
               [PStr ''j_20'', PNum 0.2, PNum 0, PStr ''lower'']]. \<not> rule_matches example_sim r"
  by code_simp

lemma example_two_match:
  "filter (rule_matches example_sim)
     [[PStr ''j_2'', PNum 0.5, PNum 1, PStr ''higher''],
      [PStr ''j_2'', PNum 0.2, PNum 0, PStr ''lower''],
      [PStr ''j_2'', PNum 1.5, PNum 0.5, PStr ''higher'']]
   = [[PStr ''j_2'', PNum 0.5, PNum 1, PStr ''higher''],
      [PStr ''j_2'', PNum 1.5, PNum 0.5, PStr ''higher'']]"
  by code_simp

lemma example_well_formed:
  "\<forall>r \<in> set [[PStr ''j_2'', PNum 0.5, PNum 1, PStr ''higher''],
               [PStr ''j_2'', PNum 0.2, PNum 0, PStr ''lower''],
               [PStr ''j_2'', PNum 1.5, PNum 0.5, PStr ''higher'']]. well_formed example_sim r"
  by code_simp

theorem sticky_and_last_match_wins_witness:
  "target_setting (snd (pumps_loop example_rules example_sim (pump_ids example_sim))) ''p_20_2''
     = target_setting example_sim ''p_20_2''
   \<and> fst (try_pump example_rules example_sim ''p_2_1'') = None
   \<and> target_setting (snd (try_pump example_rules example_sim ''p_2_1'')) ''p_2_1'' = 0.5"
  using sticky_and_last_match_wins
          [of example_rules "''p_20_2''"
              "[[PStr ''j_20'', PNum 0.3, PNum 1, PStr ''higher''],
                [PStr ''j_20'', PNum 0.2, PNum 0, PStr ''lower'']]"
              example_sim "pump_ids example_sim"]
        sticky_and_last_match_wins
          [of example_rules "''p_2_1''"
              "[[PStr ''j_2'', PNum 0.5, PNum 1, PStr ''higher''],
                [PStr ''j_2'', PNum 0.2, PNum 0, PStr ''lower''],
                [PStr ''j_2'', PNum 1.5, PNum 0.5, PStr ''higher'']]"
              example_sim "[]"]
        example_no_match example_two_match example_well_formed
  by (simp add: example_rules_def setting_of_def item_def)

lemma rule_matches_direction:
  "rule_matches sim rule \<Longrightarrow>
     ''higher'' \<in> set (lowered_strings rule) \<or> ''lower'' \<in> set (lowered_strings rule)"
  by (induction sim rule rule: rule_matches.induct)
     (auto split: option.splits if_splits)

text \<open>
  C10. A rule none of whose strings is \<open>higher\<close> or \<open>lower\<close> after lower-casing is
  skipped: it raises nothing, changes nothing, matches nothing, and the loop over the
  rules goes on with the next rule.
\<close>

theorem unknown_direction_skipped:
  "''higher'' \<notin> set (lowered_strings rule) \<and> ''lower'' \<notin> set (lowered_strings rule)
   \<longrightarrow> apply_rule sim pump rule = Inr sim
       \<and> \<not> rule_matches sim rule
       \<and> rules_loop sim pump (rule # rules) = rules_loop sim pump rules"
proof
  assume h: "''higher'' \<notin> set (lowered_strings rule) \<and> ''lower'' \<notin> set (lowered_strings rule)"
  then have a: "apply_rule sim pump rule = Inr sim" by (simp add: apply_rule_def)
  have "\<not> rule_matches sim rule" using h rule_matches_direction [of sim rule] by blast
  then show "apply_rule sim pump rule = Inr sim
       \<and> \<not> rule_matches sim rule
       \<and> rules_loop sim pump (rule # rules) = rules_loop sim pump rules"
    using a by simp
qed

lemma example_misspelled:
  "''higher'' \<notin> set (lowered_strings [PStr ''j_2'', PNum 0.5, PNum 0, PStr ''Higher than''])
   \<and> ''lower'' \<notin> set (lowered_strings [PStr ''j_2'', PNum 0.5, PNum 0, PStr ''Higher than''])"
  by code_simp

theorem unknown_direction_skipped_witness:
  "apply_rule example_sim ''p_2_1'' [PStr ''j_2'', PNum 0.5, PNum 0, PStr ''Higher than'']
     = Inr example_sim
   \<and> rules_loop example_sim ''p_2_1''
        [[PStr ''j_2'', PNum 0.5, PNum 0, PStr ''Higher than'']] = (None, example_sim)"
  using unknown_direction_skipped
          [of "[PStr ''j_2'', PNum 0.5, PNum 0, PStr ''Higher than'']"
              example_sim "''p_2_1''" "[]"]
        example_misspelled
  by simp

lemma example_capitalised:
  "target_setting
     (snd (rules_loop example_sim ''p_2_1'' [[PStr ''j_2'', PNum 0.5, PNum 0, PStr ''HIGHER'']]))
     ''p_2_1'' = 0"
  by code_simp

end
